theory Spec2Isabelle
  imports Complex_Main "HOL-Library.Sublist"
begin

section \<open>Strings\<close>

text \<open>
  Error messages and prompts are modelled as \<^typ>\<open>string\<close>, i.e. lists of 8-bit
  characters. The messages the retry logic inspects are ASCII; on ASCII text the
  operations below are Python's \<^verbatim>\<open>in\<close> and \<^verbatim>\<open>str.lower\<close>.
\<close>

text \<open>Python's \<^verbatim>\<open>sub in s\<close> on strings: \<open>sub\<close> occurs as a contiguous slice.\<close>

fun str_in :: "string \<Rightarrow> string \<Rightarrow> bool" where
  "str_in sub [] = (sub = [])"
| "str_in sub (c # cs) = (prefix sub (c # cs) \<or> str_in sub cs)"

definition ascii_upper :: string where
  "ascii_upper = ''ABCDEFGHIJKLMNOPQRSTUVWXYZ''"

definition ascii_lower :: string where
  "ascii_lower = ''abcdefghijklmnopqrstuvwxyz''"

definition lower_char :: "char \<Rightarrow> char" where
  "lower_char c = (case map_of (zip ascii_upper ascii_lower) c of Some l \<Rightarrow> l | None \<Rightarrow> c)"

text \<open>\<^verbatim>\<open>str.lower()\<close>.\<close>

definition str_lower :: "string \<Rightarrow> string" where
  "str_lower s = map lower_char s"


section \<open>Exceptions\<close>

text \<open>
  An exception value as the handler of \<^verbatim>\<open>_make_api_call\<close> sees it:
  \<open>type_name\<close> is \<^verbatim>\<open>type(e).__name__\<close>, \<open>message\<close> is \<^verbatim>\<open>str(e)\<close>, and
  \<open>is_Exception\<close> tells whether the class derives from \<^verbatim>\<open>Exception\<close>
  (\<^verbatim>\<open>KeyboardInterrupt\<close> and \<^verbatim>\<open>SystemExit\<close> do not, and
  \<^verbatim>\<open>except Exception\<close> does not catch them).
\<close>

record exn =
  type_name :: string
  message :: string
  is_Exception :: bool

definition quote :: char where
  "quote = CHR 0x27"

text \<open>Raised by \<^verbatim>\<open>float(s)\<close> on a string that is not a number.\<close>

definition ValueError_float :: "string \<Rightarrow> exn" where
  "ValueError_float s =
     \<lparr>type_name = ''ValueError'',
      message = ''could not convert string to float: '' @ [quote] @ s @ [quote],
      is_Exception = True\<rparr>"

text \<open>Raised by \<^verbatim>\<open>int(x)\<close> on the float infinity.\<close>

definition OverflowError_int :: exn where
  "OverflowError_int =
     \<lparr>type_name = ''OverflowError'',
      message = ''cannot convert float infinity to integer'',
      is_Exception = True\<rparr>"


section \<open>Classification of an error as a rate limit\<close>

text \<open>
  Lines 77-82 of \<^verbatim>\<open>autogen_simple_demo.py\<close>:
  \<^verbatim>\<open>
  is_rate_limit = (
      error_type == "RateLimitError" or
      "rate_limit" in error_str.lower() or
      "rate limit" in error_str.lower() or
      "429" in error_str
  )
  \<close>
\<close>

definition is_rate_limit :: "exn \<Rightarrow> bool" where
  "is_rate_limit e =
     (type_name e = ''RateLimitError'' \<or>
      str_in ''rate_limit'' (str_lower (message e)) \<or>
      str_in ''rate limit'' (str_lower (message e)) \<or>
      str_in ''429'' (message e))"


section \<open>The regular expression\<close>

text \<open>
  \<^verbatim>\<open>re.search(r'Please try again in ([\d.]+)([smh])', error_str)\<close>.

  At a given start position the pattern needs the literal text, then a non-empty run of
  digits and dots, then one of \<open>s\<close>, \<open>m\<close>, \<open>h\<close>. The run is greedy; giving characters
  back never helps, because the character after a shorter run is again a digit or a dot,
  which is no unit. So the match at a position, if any, takes the whole run
  (\<open>match_at_iff\<close> below proves this against the declarative reading of the pattern).
  \<open>re_search\<close> tries the start positions from left to right and returns the two groups
  of the first match.
\<close>

definition retry_literal :: string where
  "retry_literal = ''Please try again in ''"

definition is_value_char :: "char \<Rightarrow> bool" where
  "is_value_char c = (c \<in> set ''0123456789.'')"

definition is_unit_char :: "char \<Rightarrow> bool" where
  "is_unit_char c = (c \<in> set ''smh'')"

definition match_at :: "string \<Rightarrow> (string \<times> char) option" where
  "match_at s =
     (if prefix retry_literal s then
        (let rest = drop (length retry_literal) s;
             tok = takeWhile is_value_char rest
         in case dropWhile is_value_char rest of
              [] \<Rightarrow> None
            | u # _ \<Rightarrow> if tok \<noteq> [] \<and> is_unit_char u then Some (tok, u) else None)
      else None)"

fun re_search :: "string \<Rightarrow> (string \<times> char) option" where
  "re_search [] = match_at []"
| "re_search (c # cs) =
     (case match_at (c # cs) of Some g \<Rightarrow> Some g | None \<Rightarrow> re_search cs)"


section \<open>Floating point\<close>

text \<open>
  Python's \<^verbatim>\<open>float\<close> is an IEEE 754 binary64 number. The values that occur here are
  non-negative, so a float is either \<open>Finite m e\<close>, standing for \<open>m * 2 ^ e\<close>, or
  \<open>Infinity\<close>. \<open>to_double a b\<close> is the double nearest to the fraction \<open>a / b\<close>
  (ties to even, gradual underflow below \<open>2 ^ - 1022\<close>, overflow to infinity from
  \<open>2 ^ 1024\<close> on): the rounding that both \<^verbatim>\<open>float(str)\<close> and the product of two
  floats perform.
\<close>

datatype pyfloat = Finite int int | Infinity

text \<open>The number of binary digits of a positive integer (\<^verbatim>\<open>int.bit_length\<close>).\<close>

function bit_length :: "int \<Rightarrow> nat" where
  "bit_length n = (if n \<le> 0 then 0 else Suc (bit_length (n div 2)))"
  by pat_completeness auto
termination
  by (relation "measure nat") auto

declare bit_length.simps [simp del]

text \<open>\<open>\<lfloor>log\<^sub>2 (a / b)\<rfloor>\<close> for positive \<open>a\<close> and \<open>b\<close>.\<close>

definition floor_log2 :: "int \<Rightarrow> int \<Rightarrow> int" where
  "floor_log2 a b =
     (let d = int (bit_length a) - int (bit_length b)
      in if (if 0 \<le> d then b * 2 ^ nat d \<le> a else b \<le> a * 2 ^ nat (- d)) then d else d - 1)"

text \<open>The integer nearest to \<open>a / b\<close>, the even one of two equally near.\<close>

definition round_half_even :: "int \<Rightarrow> int \<Rightarrow> int" where
  "round_half_even a b =
     (let q = a div b; r = a mod b
      in if 2 * r < b then q
         else if b < 2 * r then q + 1
         else if even q then q else q + 1)"

definition to_double :: "int \<Rightarrow> int \<Rightarrow> pyfloat" where
  "to_double a b =
     (if a = 0 then Finite 0 0
      else
        (let e = max (floor_log2 a b - 52) (- 1074);
             m = (if 0 \<le> e then round_half_even a (b * 2 ^ nat e)
                  else round_half_even (a * 2 ^ nat (- e)) b)
         in if 971 < e \<or> (e = 971 \<and> m = 2 ^ 53) then Infinity else Finite m e))"

text \<open>The product of a float and the float of a small positive integer (\<open>value * 60\<close>).\<close>

definition float_mul :: "pyfloat \<Rightarrow> int \<Rightarrow> pyfloat" where
  "float_mul x k =
     (case x of
        Infinity \<Rightarrow> Infinity
      | Finite m e \<Rightarrow>
          if 0 \<le> e then to_double (m * k * 2 ^ nat e) 1
          else to_double (m * k) (2 ^ nat (- e)))"

text \<open>\<^verbatim>\<open>int(x)\<close>: truncation, \<^verbatim>\<open>OverflowError\<close> on infinity.\<close>

definition float_to_int :: "pyfloat \<Rightarrow> exn + int" where
  "float_to_int x =
     (case x of
        Infinity \<Rightarrow> Inl OverflowError_int
      | Finite m e \<Rightarrow> Inr (if 0 \<le> e then m * 2 ^ nat e else m div 2 ^ nat (- e)))"

definition digit_val :: "char \<Rightarrow> int" where
  "digit_val c =
     (case map_of (zip ''0123456789'' [0, 1, 2, 3, 4, 5, 6, 7, 8, 9]) c of
        Some d \<Rightarrow> d | None \<Rightarrow> 0)"

definition digits_value :: "string \<Rightarrow> int" where
  "digits_value ds = foldl (\<lambda>n c. 10 * n + digit_val c) 0 ds"

text \<open>
  \<^verbatim>\<open>float(tok)\<close> for a token of digits and dots, which is all the regular expression
  captures. The token is a number iff it has at most one dot and at least one digit;
  its value is the double nearest to the decimal it writes.
\<close>

definition float_of_token :: "string \<Rightarrow> exn + pyfloat" where
  "float_of_token tok =
     (let ip = takeWhile (\<lambda>c. c \<noteq> CHR ''.'') tok;
          fp = drop 1 (dropWhile (\<lambda>c. c \<noteq> CHR ''.'') tok)
      in if CHR ''.'' \<in> set fp \<or> ip @ fp = [] then Inl (ValueError_float tok)
         else Inr (to_double (digits_value (ip @ fp)) (10 ^ length fp)))"


section \<open>The wait time\<close>

text \<open>
  Lines 86-100: the wait before the next attempt, computed from \<^verbatim>\<open>str(e)\<close> of a
  rate-limit error. \<open>Inl\<close> is an exception raised by the computation itself.
\<close>

definition add_buffer :: "exn + int \<Rightarrow> int \<Rightarrow> exn + int" where
  "add_buffer r b = (case r of Inl err \<Rightarrow> Inl err | Inr n \<Rightarrow> Inr (n + b))"

definition wait_time_of :: "string \<Rightarrow> exn + int" where
  "wait_time_of error_str =
     (if str_in ''Please try again in'' error_str then
        (case re_search error_str of
           None \<Rightarrow> Inr 60
         | Some (tok, unit) \<Rightarrow>
             (case float_of_token tok of
                Inl err \<Rightarrow> Inl err
              | Inr value \<Rightarrow>
                  if unit = CHR ''s'' then add_buffer (float_to_int value) 5
                  else if unit = CHR ''m'' then add_buffer (float_to_int (float_mul value 60)) 10
                  else if unit = CHR ''h'' then add_buffer (float_to_int (float_mul value 3600)) 60
                  else Inr 60))
      else Inr 60)"


section \<open>The remote service and the effects of a run\<close>

text \<open>
  The chat-completion endpoint is outside the program. It is a parameter of the model:
  a function from the state of the outside world and the two prompts to either the
  exception the client raises or the response, and the next state of the world.
  Of a response the program reads \<^verbatim>\<open>response.choices[0].message.content\<close> only, so
  a response is the list of the contents of its choices (a content can be \<^verbatim>\<open>None\<close>).
\<close>

datatype response = Response (choices: "string option list")

type_synonym 'w api = "'w \<Rightarrow> string \<Rightarrow> string \<Rightarrow> (exn + response) \<times> 'w"

text \<open>
  What a run does to the outside, in order: requests to the endpoint, sleeps, assignments
  to \<^verbatim>\<open>self.outputs\<close>, the creation of the report file and the writes of the phase
  outputs to it. Console output, time stamps and the constant header lines of the report
  are not recorded. \<^verbatim>\<open>time.sleep\<close> and \<^verbatim>\<open>open\<close> are taken to return normally.
\<close>

datatype event =
    ApiCall string string
  | Sleep int
  | StoreSet string
  | FileCreated
  | FileWrite string

datatype 'a result = Return 'a | Raise exn

text \<open>
  The workflow object with its surroundings: \<^verbatim>\<open>self.outputs\<close> (a dict, which keeps
  insertion order: an association list), the state of the outside world, and the events
  so far.
\<close>

record 'w workflow =
  outputs :: "(string \<times> string option) list"
  world :: 'w
  trace :: "event list"

text \<open>\<^verbatim>\<open>__init__\<close>, after the configuration has been validated: \<^verbatim>\<open>self.outputs = {}\<close>.\<close>

definition init_workflow :: "'w \<Rightarrow> 'w workflow" where
  "init_workflow w = \<lparr>outputs = [], world = w, trace = []\<rparr>"


section \<open>The retry loop\<close>

text \<open>
  \<^verbatim>\<open>_make_api_call\<close>, lines 60-118. \<open>retry_loop\<close> is the \<^verbatim>\<open>for\<close> loop over the attempt
  numbers still to run; \<open>Return None\<close> is the implicit \<^verbatim>\<open>return None\<close> when the loop
  ends without a \<^verbatim>\<open>return\<close> or a \<^verbatim>\<open>raise\<close>.
\<close>

fun retry_loop ::
  "'w api \<Rightarrow> string \<Rightarrow> string \<Rightarrow> int \<Rightarrow> nat list \<Rightarrow> 'w workflow
     \<Rightarrow> response option result \<times> 'w workflow" where
  "retry_loop api system_prompt user_message max_retries [] s = (Return None, s)"
| "retry_loop api system_prompt user_message max_retries (attempt # rest) s =
     (case api (world s) system_prompt user_message of
        (Inr resp, w') \<Rightarrow>
          (Return (Some resp),
           s\<lparr>world := w', trace := trace s @ [ApiCall system_prompt user_message]\<rparr>)
      | (Inl e, w') \<Rightarrow>
          (let s' = s\<lparr>world := w', trace := trace s @ [ApiCall system_prompt user_message]\<rparr>
           in if \<not> is_Exception e then (Raise e, s')
              else if is_rate_limit e then
                (case wait_time_of (message e) of
                   Inl err \<Rightarrow> (Raise err, s')
                 | Inr wait_time \<Rightarrow>
                     if int attempt < max_retries - 1 then
                       retry_loop api system_prompt user_message max_retries rest
                         (s'\<lparr>trace := trace s' @ [Sleep wait_time]\<rparr>)
                     else (Raise e, s'))
              else (Raise e, s')))"

definition make_api_call ::
  "'w api \<Rightarrow> string \<Rightarrow> string \<Rightarrow> int \<Rightarrow> 'w workflow \<Rightarrow> response option result \<times> 'w workflow" where
  "make_api_call api system_prompt user_message max_retries s =
     retry_loop api system_prompt user_message max_retries [0..<nat max_retries] s"


section \<open>The output store\<close>

definition KeyError :: "string \<Rightarrow> exn" where
  "KeyError k = \<lparr>type_name = ''KeyError'', message = [quote] @ k @ [quote], is_Exception = True\<rparr>"

definition IndexError :: exn where
  "IndexError =
     \<lparr>type_name = ''IndexError'', message = ''list index out of range'', is_Exception = True\<rparr>"

definition AttributeError_choices :: exn where
  "AttributeError_choices =
     \<lparr>type_name = ''AttributeError'',
      message = [quote] @ ''NoneType'' @ [quote] @ '' object has no attribute '' @
                [quote] @ ''choices'' @ [quote],
      is_Exception = True\<rparr>"

definition TypeError_concat :: exn where
  "TypeError_concat =
     \<lparr>type_name = ''TypeError'',
      message = ''unsupported operand type(s) for +: '' @ [quote] @ ''NoneType'' @ [quote] @
                '' and '' @ [quote] @ ''str'' @ [quote],
      is_Exception = True\<rparr>"

text \<open>\<^verbatim>\<open>d[k]\<close>.\<close>

definition dict_get :: "(string \<times> 'v) list \<Rightarrow> string \<Rightarrow> exn + 'v" where
  "dict_get d k = (case map_of d k of None \<Rightarrow> Inl (KeyError k) | Some v \<Rightarrow> Inr v)"

text \<open>\<^verbatim>\<open>d[k] = v\<close>: a new key goes to the end, an old key keeps its place.\<close>

definition dict_set :: "string \<Rightarrow> 'v \<Rightarrow> (string \<times> 'v) list \<Rightarrow> (string \<times> 'v) list" where
  "dict_set k v d =
     (if k \<in> fst ` set d then map (\<lambda>(k', v'). if k' = k then (k', v) else (k', v')) d
      else d @ [(k, v)])"

text \<open>How an f-string renders a stored output.\<close>

definition py_str :: "string option \<Rightarrow> string" where
  "py_str v = (case v of None \<Rightarrow> ''None'' | Some t \<Rightarrow> t)"


section \<open>The phases\<close>

definition seq ::
  "unit result \<times> 's \<Rightarrow> ('s \<Rightarrow> unit result \<times> 's) \<Rightarrow> unit result \<times> 's" where
  "seq r f = (case r of (Raise e, s) \<Rightarrow> (Raise e, s) | (Return _, s) \<Rightarrow> f s)"

text \<open>
  The end of every phase:
  \<^verbatim>\<open>self.outputs[key] = response.choices[0].message.content\<close>.
\<close>

definition store_content ::
  "string \<Rightarrow> response option result \<times> 'w workflow \<Rightarrow> unit result \<times> 'w workflow" where
  "store_content key r =
     (case r of
        (Raise e, s) \<Rightarrow> (Raise e, s)
      | (Return None, s) \<Rightarrow> (Raise AttributeError_choices, s)
      | (Return (Some resp), s) \<Rightarrow>
          (case choices resp of
             [] \<Rightarrow> (Raise IndexError, s)
           | content # _ \<Rightarrow>
               (Return (),
                s\<lparr>outputs := dict_set key content (outputs s),
                  trace := trace s @ [StoreSet key]\<rparr>)))"

definition research_system :: string where
  "research_system =
     ''You are a market research analyst. Provide a brief analysis of\<newline>'' @
     ''3 competitors in AI interview platforms (HireVue, Pymetrics, Codility).\<newline>'' @
     ''List their key features and identify market gaps in 150 words.''"

definition analysis_system :: string where
  "analysis_system =
     ''You are a product analyst. Based on the market research provided,\<newline>'' @
     ''identify 3 key market opportunities or gaps for a new AI interview platform.\<newline>'' @
     ''Be concise in 150 words.''"

definition blueprint_system :: string where
  "blueprint_system =
     ''You are a product designer. Based on the market analysis and opportunities,\<newline>'' @
     ''create a brief product blueprint including:\<newline>'' @
     ''- Key features (3-5)\<newline>'' @
     ''- User journey (2-3 steps)\<newline>'' @
     ''Keep it concise - 150 words.''"

definition technical_system :: string where
  "technical_system =
     ''You are a technical architect. Based on the product blueprint provided,\<newline>'' @
     ''design a technical architecture including:\<newline>'' @
     ''- Technology stack (frontend, backend, database)\<newline>'' @
     ''- Key technical components and services\<newline>'' @
     ''- Scalability and performance considerations\<newline>'' @
     ''Keep it concise - 150 words.''"

definition review_system :: string where
  "review_system =
     ''You are a product reviewer and strategist. Review the product blueprint\<newline>'' @
     ''and technical architecture, then provide 3 strategic recommendations for success.\<newline>'' @
     ''Be concise - 150 words.''"

definition phase_research :: "'w api \<Rightarrow> 'w workflow \<Rightarrow> unit result \<times> 'w workflow" where
  "phase_research api s =
     store_content ''research''
       (make_api_call api research_system
          ''Analyze the current market for AI-powered interview platforms.'' 3 s)"

definition phase_analysis :: "'w api \<Rightarrow> 'w workflow \<Rightarrow> unit result \<times> 'w workflow" where
  "phase_analysis api s =
     (case dict_get (outputs s) ''research'' of
        Inl e \<Rightarrow> (Raise e, s)
      | Inr research \<Rightarrow>
          store_content ''analysis''
            (make_api_call api analysis_system
               (''Market research findings:\<newline>'' @ py_str research @
                ''\<newline>\<newline>Now identify market opportunities and gaps.'') 3 s))"

definition phase_blueprint :: "'w api \<Rightarrow> 'w workflow \<Rightarrow> unit result \<times> 'w workflow" where
  "phase_blueprint api s =
     (case dict_get (outputs s) ''analysis'' of
        Inl e \<Rightarrow> (Raise e, s)
      | Inr analysis \<Rightarrow>
          store_content ''blueprint''
            (make_api_call api blueprint_system
               (''Market Analysis:\<newline>'' @ py_str analysis @
                ''\<newline>\<newline>Create a product blueprint for our platform.'') 3 s))"

definition phase_technical :: "'w api \<Rightarrow> 'w workflow \<Rightarrow> unit result \<times> 'w workflow" where
  "phase_technical api s =
     (case dict_get (outputs s) ''blueprint'' of
        Inl e \<Rightarrow> (Raise e, s)
      | Inr blueprint \<Rightarrow>
          store_content ''technical''
            (make_api_call api technical_system
               (''Product Blueprint:\<newline>'' @ py_str blueprint @
                ''\<newline>\<newline>Design the technical architecture for this platform.'') 3 s))"

definition phase_review :: "'w api \<Rightarrow> 'w workflow \<Rightarrow> unit result \<times> 'w workflow" where
  "phase_review api s =
     (case dict_get (outputs s) ''blueprint'' of
        Inl e \<Rightarrow> (Raise e, s)
      | Inr blueprint \<Rightarrow>
          (case dict_get (outputs s) ''technical'' of
             Inl e \<Rightarrow> (Raise e, s)
           | Inr technical \<Rightarrow>
               store_content ''review''
                 (make_api_call api review_system
                    (''Product Blueprint:\<newline>'' @ py_str blueprint @
                     ''\<newline>\<newline>Technical Architecture:\<newline>'' @ py_str technical @
                     ''\<newline>\<newline>Provide strategic review and recommendations.'') 3 s)))"


section \<open>The summary and the run\<close>

definition phase_names :: "string list" where
  "phase_names = [''research'', ''analysis'', ''blueprint'', ''technical'', ''review'']"

text \<open>
  \<^verbatim>\<open>print_summary\<close> first prints \<^verbatim>\<open>self.outputs[k]\<close> for the five keys in turn
  (a missing key raises \<^verbatim>\<open>KeyError\<close>), then opens the report file and writes
  \<^verbatim>\<open>self.outputs[k] + "\n"\<close> for the five keys in turn (\<^verbatim>\<open>TypeError\<close> when the
  stored content is \<^verbatim>\<open>None\<close>).
\<close>

fun print_outputs :: "(string \<times> string option) list \<Rightarrow> string list \<Rightarrow> exn option" where
  "print_outputs d [] = None"
| "print_outputs d (k # ks) =
     (case dict_get d k of Inl e \<Rightarrow> Some e | Inr _ \<Rightarrow> print_outputs d ks)"

fun write_outputs :: "string list \<Rightarrow> 'w workflow \<Rightarrow> unit result \<times> 'w workflow" where
  "write_outputs [] s = (Return (), s)"
| "write_outputs (k # ks) s =
     (case dict_get (outputs s) k of
        Inl e \<Rightarrow> (Raise e, s)
      | Inr None \<Rightarrow> (Raise TypeError_concat, s)
      | Inr (Some t) \<Rightarrow> write_outputs ks (s\<lparr>trace := trace s @ [FileWrite (t @ ''\<newline>'')]\<rparr>))"

definition print_summary :: "'w workflow \<Rightarrow> unit result \<times> 'w workflow" where
  "print_summary s =
     (case print_outputs (outputs s) phase_names of
        Some e \<Rightarrow> (Raise e, s)
      | None \<Rightarrow> write_outputs phase_names (s\<lparr>trace := trace s @ [FileCreated]\<rparr>))"

text \<open>The five phases in the order \<^verbatim>\<open>run\<close> calls them.\<close>

definition phases :: "'w api \<Rightarrow> ('w workflow \<Rightarrow> unit result \<times> 'w workflow) list" where
  "phases api =
     [phase_research api, phase_analysis api, phase_blueprint api, phase_technical api,
      phase_review api]"

text \<open>Running a list of steps one after the other, stopping at the first exception.\<close>

fun run_steps ::
  "('s \<Rightarrow> unit result \<times> 's) list \<Rightarrow> 's \<Rightarrow> unit result \<times> 's" where
  "run_steps [] s = (Return (), s)"
| "run_steps (f # fs) s = seq (f s) (run_steps fs)"

text \<open>\<^verbatim>\<open>run\<close>, lines 120-144.\<close>

definition run :: "'w api \<Rightarrow> 'w workflow \<Rightarrow> unit result \<times> 'w workflow" where
  "run api s =
     seq (seq (seq (seq (seq (phase_research api s)
       (phase_analysis api)) (phase_blueprint api)) (phase_technical api)) (phase_review api))
       print_summary"

text \<open>The keys assigned in \<^verbatim>\<open>self.outputs\<close>, in the order of the assignments.\<close>

fun stores :: "event list \<Rightarrow> string list" where
  "stores [] = []"
| "stores (StoreSet k # evs) = k # stores evs"
| "stores (_ # evs) = stores evs"


section \<open>Declarative readings used in the statements\<close>

text \<open>\<open>sub\<close> occurs in \<open>s\<close> up to the case of ASCII letters.\<close>

definition contains_ci :: "string \<Rightarrow> string \<Rightarrow> bool" where
  "contains_ci sub s = (\<exists>pre mid post. s = pre @ mid @ post \<and> str_lower mid = str_lower sub)"

text \<open>
  The pattern \<^verbatim>\<open>Please try again in ([\d.]+)([smh])\<close> read as a set of strings: \<open>s\<close>
  starts with the literal, then \<open>tok\<close>, a non-empty string of digits and dots, then the
  unit \<open>u\<close>. Nothing here says how a matcher finds \<open>tok\<close>.
\<close>

definition matches_at :: "string \<Rightarrow> string \<Rightarrow> char \<Rightarrow> bool" where
  "matches_at s tok u =
     (\<exists>post. s = retry_literal @ tok @ [u] @ post \<and>
        tok \<noteq> [] \<and> list_all is_value_char tok \<and> is_unit_char u)"

text \<open>The message has a wait-time phrase: the pattern matches at some position.\<close>

definition has_wait_phrase :: "string \<Rightarrow> bool" where
  "has_wait_phrase msg = (\<exists>i tok u. matches_at (drop i msg) tok u)"

text \<open>\<open>tok\<close> and \<open>u\<close> are the value and the unit of the leftmost wait-time phrase.\<close>

definition first_match :: "string \<Rightarrow> string \<Rightarrow> char \<Rightarrow> bool" where
  "first_match msg tok u =
     (\<exists>i. matches_at (drop i msg) tok u \<and>
        (\<forall>j<i. \<forall>tok' u'. \<not> matches_at (drop j msg) tok' u'))"

text \<open>The rational number a float stands for (left open for the infinity, as \<open>0\<close>).\<close>

definition float_value :: "pyfloat \<Rightarrow> rat" where
  "float_value x =
     (case x of
        Finite m e \<Rightarrow> if 0 \<le> e then of_int (m * 2 ^ nat e) else of_int m / of_int (2 ^ nat (- e))
      | Infinity \<Rightarrow> 0)"

text \<open>
  The value converted to seconds in double arithmetic, and the safety buffer, per unit:
  \<^verbatim>\<open>value\<close>, \<^verbatim>\<open>value * 60\<close>, \<^verbatim>\<open>value * 3600\<close> and \<open>5\<close>, \<open>10\<close>, \<open>60\<close>.
\<close>

definition seconds_float :: "pyfloat \<Rightarrow> char \<Rightarrow> pyfloat" where
  "seconds_float v u =
     (if u = CHR ''s'' then v else if u = CHR ''m'' then float_mul v 60 else float_mul v 3600)"

definition buffer :: "char \<Rightarrow> int" where
  "buffer u = (if u = CHR ''s'' then 5 else if u = CHR ''m'' then 10 else 60)"

definition is_digit :: "char \<Rightarrow> bool" where
  "is_digit c = (c \<in> set ''0123456789'')"

text \<open>The number a token of digits with at most one dot writes in decimal, exactly.\<close>

definition decimal_value :: "string \<Rightarrow> rat" where
  "decimal_value tok =
     of_int (digits_value (filter (\<lambda>c. c \<noteq> CHR ''.'') tok)) /
     10 ^ length (drop 1 (dropWhile (\<lambda>c. c \<noteq> CHR ''.'') tok))"

text \<open>
  The wait in exact arithmetic on the decimal value \<open>V\<close> of the token: \<open>\<lfloor>V\<rfloor> + 5\<close> for
  seconds, \<open>\<lfloor>V * 60\<rfloor> + 10\<close> for minutes, \<open>\<lfloor>V * 3600\<rfloor> + 60\<close> for hours.
\<close>

definition exact_wait :: "string \<Rightarrow> char \<Rightarrow> int" where
  "exact_wait tok u =
     (if u = CHR ''s'' then \<lfloor>decimal_value tok\<rfloor> + 5
      else if u = CHR ''m'' then \<lfloor>decimal_value tok * 60\<rfloor> + 10
      else \<lfloor>decimal_value tok * 3600\<rfloor> + 60)"

text \<open>The keys of a dict after \<^verbatim>\<open>d[k] = v\<close>: a new key is appended, an old one stays.\<close>

definition add_key :: "string list \<Rightarrow> string \<Rightarrow> string list" where
  "add_key ks k = (if k \<in> set ks then ks else ks @ [k])"

text \<open>The report file has been opened for writing.\<close>

definition file_created :: "'w workflow \<Rightarrow> bool" where
  "file_created s = (FileCreated \<in> set (trace s))"

text \<open>
  What every phase does to the store and to the report file: it never creates the file,
  and when it returns it has assigned \<open>key\<close> in \<^verbatim>\<open>self.outputs\<close>, once, and no other key.
\<close>

definition stores_key :: "string \<Rightarrow> ('w workflow \<Rightarrow> unit result \<times> 'w workflow) \<Rightarrow> bool" where
  "stores_key key f =
     (\<forall>s r s'. f s = (r, s') \<longrightarrow>
        file_created s' = file_created s \<and>
        (r = Return () \<longrightarrow>
           (\<exists>c. outputs s' = dict_set key c (outputs s)) \<and>
           stores (trace s') = stores (trace s) @ [key]))"


section \<open>Concrete surroundings for the examples\<close>

text \<open>An endpoint that raises the same exception on every request, counting the requests.\<close>

definition always_fails :: "exn \<Rightarrow> nat api" where
  "always_fails e w system_prompt user_message = (Inl e, Suc w)"

definition timeout_error :: exn where
  "timeout_error =
     \<lparr>type_name = ''APITimeoutError'', message = ''Request timed out.'', is_Exception = True\<rparr>"

definition rate_limit_error :: "string \<Rightarrow> exn" where
  "rate_limit_error msg = \<lparr>type_name = ''RateLimitError'', message = msg, is_Exception = True\<rparr>"

definition status_error :: "string \<Rightarrow> exn" where
  "status_error msg = \<lparr>type_name = ''APIStatusError'', message = msg, is_Exception = True\<rparr>"

definition compound_message :: string where
  "compound_message = ''Rate limit reached. Please try again in 3m23.04s.''"

definition malformed_message :: string where
  "malformed_message = ''Rate limit reached. Please try again in .s''"

definition dots_message :: string where
  "dots_message = ''Error code: 429. Please try again in ...s''"

definition fractional_message :: string where
  "fractional_message = ''Rate limit reached. Please try again in 2.05m''"

definition no_hint_message :: string where
  "no_hint_message = ''Rate limit reached. Please try again in a while.''"

definition two_dots_message :: string where
  "two_dots_message = ''Rate limit reached. Please try again in 1.2.3s''"

text \<open>
  An endpoint that answers from a script: the state of the world is the list of the answers
  still to come, and a request when the script is over times out.
\<close>

definition scripted :: "(exn + response) list api" where
  "scripted w system_prompt user_message =
     (case w of [] \<Rightarrow> (Inl timeout_error, []) | x # xs \<Rightarrow> (x, xs))"

definition five_responses :: "(exn + response) list" where
  "five_responses =
     [Inr (Response [Some ''gaps'']), Inr (Response [Some ''opportunities'']),
      Inr (Response [Some ''blueprint'']), Inr (Response [Some ''architecture'']),
      Inr (Response [Some ''recommendations''])]"

definition one_response_then_timeout :: "(exn + response) list" where
  "one_response_then_timeout = [Inr (Response [Some ''gaps'']), Inl timeout_error]"

text \<open>
  The run on \<open>one_response_then_timeout\<close>: the request of the research phase, the request
  of the analysis phase, the workflow after the research phase and the workflow when the
  request of the analysis phase has timed out.
\<close>

definition research_request :: event where
  "research_request =
     ApiCall research_system ''Analyze the current market for AI-powered interview platforms.''"

definition analysis_request :: event where
  "analysis_request =
     ApiCall analysis_system
       (''Market research findings:\<newline>'' @ ''gaps'' @
        ''\<newline>\<newline>Now identify market opportunities and gaps.'')"

definition after_research :: "(exn + response) list workflow" where
  "after_research =
     \<lparr>outputs = [(''research'', Some ''gaps'')], world = [Inl timeout_error],
      trace = [research_request, StoreSet ''research'']\<rparr>"

definition after_timeout :: "(exn + response) list workflow" where
  "after_timeout =
     \<lparr>outputs = [(''research'', Some ''gaps'')], world = [],
      trace = [research_request, StoreSet ''research'', analysis_request]\<rparr>"


section \<open>The retry loop: no attempts, and errors that are not rate limits\<close>

lemma upt_nat_Cons: "0 < (n::int) \<Longrightarrow> [0..<nat n] = 0 # [1..<nat n]"
  by (simp add: upt_conv_Cons)

text \<open>
  C9. Called with \<open>max_retries \<le> 0\<close>, \<^verbatim>\<open>_make_api_call\<close> makes no request (the world and
  the trace are unchanged), raises nothing and returns \<^verbatim>\<open>None\<close>.
\<close>

theorem no_attempt_when_no_retries:
  "max_retries \<le> 0 \<Longrightarrow>
     make_api_call api system_prompt user_message max_retries s = (Return None, s)"
  by (simp add: make_api_call_def)

theorem no_attempt_when_no_retries_witness:
  "make_api_call (always_fails timeout_error) ''sys'' ''usr'' 0 (init_workflow 0) =
     (Return None, init_workflow 0)"
  using no_attempt_when_no_retries [of 0 "always_fails timeout_error" "''sys''" "''usr''"
      "init_workflow 0"]
  by simp

text \<open>
  An exception that the handler does not catch, or that it does not classify as a rate
  limit, leaves the loop at once, whichever attempt raised it.
\<close>

lemma retry_loop_other_error:
  assumes "api (world s) system_prompt user_message = (Inl e, w')"
    and "\<not> (is_Exception e \<and> is_rate_limit e)"
  shows "retry_loop api system_prompt user_message max_retries (attempt # rest) s =
           (Raise e, s\<lparr>world := w', trace := trace s @ [ApiCall system_prompt user_message]\<rparr>)"
  using assms by (auto simp add: Let_def)

lemma timeout_error_not_rate_limit: "\<not> is_rate_limit timeout_error"
  by (simp add: is_rate_limit_def timeout_error_def str_lower_def lower_char_def
      ascii_upper_def ascii_lower_def)

text \<open>
  C2. When the request raises an error that is not classified as a rate limit,
  \<^verbatim>\<open>_make_api_call\<close> raises that error with exactly one request made and no sleep: the
  trace grows by the one \<open>ApiCall\<close> and nothing else.
\<close>

theorem other_error_propagates_at_once:
  assumes "0 < max_retries"
    and "api (world s) system_prompt user_message = (Inl e, w')"
    and "\<not> (is_Exception e \<and> is_rate_limit e)"
  shows "make_api_call api system_prompt user_message max_retries s =
           (Raise e, s\<lparr>world := w', trace := trace s @ [ApiCall system_prompt user_message]\<rparr>)"
  unfolding make_api_call_def upt_nat_Cons [OF assms(1)]
  using assms(2,3) by (rule retry_loop_other_error)

theorem other_error_propagates_at_once_witness:
  "make_api_call (always_fails timeout_error) ''sys'' ''usr'' 3 (init_workflow 0) =
     (Raise timeout_error, \<lparr>outputs = [], world = 1, trace = [ApiCall ''sys'' ''usr'']\<rparr>)"
  using other_error_propagates_at_once [of 3 "always_fails timeout_error" "init_workflow 0"
      "''sys''" "''usr''" timeout_error 1]
  by (simp add: always_fails_def init_workflow_def timeout_error_not_rate_limit)


section \<open>Substrings and the classification\<close>


lemma str_in_iff: "str_in sub s \<longleftrightarrow> (\<exists>pre post. s = pre @ sub @ post)"
proof (induction s)
  case Nil
  then show ?case by auto
next
  case (Cons c cs)
  have "(\<exists>pre post. c # cs = pre @ sub @ post) \<longleftrightarrow>
        (\<exists>post. c # cs = sub @ post) \<or> (\<exists>pre post. cs = pre @ sub @ post)"
    (is "?L \<longleftrightarrow> ?A \<or> ?B")
  proof
    assume ?L
    then obtain pre post where eq: "c # cs = pre @ sub @ post" by blast
    show "?A \<or> ?B"
    proof (cases pre)
      case Nil
      with eq show ?thesis by auto
    next
      case (Cons p ps)
      with eq have "cs = ps @ sub @ post" by simp
      then show ?thesis by blast
    qed
  next
    assume "?A \<or> ?B"
    then show ?L
    proof
      assume ?A
      then obtain post where "c # cs = [] @ sub @ post" by auto
      then show ?L by blast
    next
      assume ?B
      then obtain pre post where "cs = pre @ sub @ post" by blast
      then have "c # cs = (c # pre) @ sub @ post" by simp
      then show ?L by blast
    qed
  qed
  with Cons show ?case by (simp add: prefix_def)
qed

lemma map_split: "map f s = a @ b \<Longrightarrow> \<exists>p r. s = p @ r \<and> map f p = a \<and> map f r = b"
  by (auto simp add: map_eq_append_conv)

lemma str_in_lower_iff:
  "str_in (str_lower sub) (str_lower s) \<longleftrightarrow> contains_ci sub s"
proof -
  have "(\<exists>pre post. map lower_char s = pre @ map lower_char sub @ post) \<longleftrightarrow>
        (\<exists>p m q. s = p @ m @ q \<and> map lower_char m = map lower_char sub)" (is "?L \<longleftrightarrow> ?R")
  proof
    assume ?L
    then obtain pre post where "map lower_char s = pre @ map lower_char sub @ post" by blast
    then obtain p r where s: "s = p @ r" and r: "map lower_char r = map lower_char sub @ post"
      using map_split by blast
    from r obtain m q where "r = m @ q" and "map lower_char m = map lower_char sub"
      using map_split by blast
    with s show ?R by blast
  next
    assume ?R
    then obtain p m q where "s = p @ m @ q" and "map lower_char m = map lower_char sub" by blast
    then have "map lower_char s = map lower_char p @ map lower_char sub @ map lower_char q" by simp
    then show ?L by blast
  qed
  then show ?thesis by (simp add: str_in_iff contains_ci_def str_lower_def)
qed

lemma lower_literals:
  "str_lower ''rate_limit'' = ''rate_limit''" "str_lower ''rate limit'' = ''rate limit''"
  by (simp_all add: str_lower_def lower_char_def ascii_upper_def ascii_lower_def)

text \<open>
  C5. An error is classified as a rate limit iff its type name is \<^verbatim>\<open>RateLimitError\<close>, or
  its message contains \<^verbatim>\<open>rate_limit\<close> or \<^verbatim>\<open>rate limit\<close> up to case, or its message
  contains \<^verbatim>\<open>429\<close>; every other error is not.
\<close>

theorem rate_limit_classification:
  "is_rate_limit e \<longleftrightarrow>
     type_name e = ''RateLimitError'' \<or>
     contains_ci ''rate_limit'' (message e) \<or>
     contains_ci ''rate limit'' (message e) \<or>
     (\<exists>pre post. message e = pre @ ''429'' @ post)"
  unfolding is_rate_limit_def
  using str_in_lower_iff [of "''rate_limit''" "message e"] str_in_lower_iff [of "''rate limit''" "message e"]
  by (simp only: lower_literals str_in_iff)

theorem rate_limit_classification_witness:
  "is_rate_limit \<lparr>type_name = ''APIStatusError'', message = ''Error code: 429'',
     is_Exception = True\<rparr>"
proof -
  have "''Error code: 429'' = ''Error code: '' @ ''429'' @ []" by simp
  then have "\<exists>pre post. ''Error code: 429'' = pre @ ''429'' @ post" by blast
  then show ?thesis
    using rate_limit_classification [of "\<lparr>type_name = ''APIStatusError'',
      message = ''Error code: 429'', is_Exception = True\<rparr>"]
    by simp
qed


section \<open>The regular expression finds the leftmost wait-time phrase\<close>

lemma unit_not_value: "is_unit_char u \<Longrightarrow> \<not> is_value_char u"
  by (auto simp add: is_unit_char_def is_value_char_def)

lemma match_at_iff: "match_at s = Some (tok, u) \<longleftrightarrow> matches_at s tok u"
proof
  assume m: "match_at s = Some (tok, u)"
  then have p: "prefix retry_literal s"
    by (auto simp add: match_at_def split: if_splits)
  then obtain r where s: "s = retry_literal @ r" by (auto simp add: prefix_def)
  from m p s obtain rest where d: "dropWhile is_value_char r = u # rest"
    and t: "tok = takeWhile is_value_char r" and ne: "tok \<noteq> []" and un: "is_unit_char u"
    by (auto simp add: match_at_def Let_def split: list.splits if_splits)
  have "r = takeWhile is_value_char r @ dropWhile is_value_char r" by simp
  with d t have "r = tok @ [u] @ rest" by simp
  moreover have "list_all is_value_char tok"
    unfolding t list_all_iff by (auto dest: set_takeWhileD)
  ultimately show "matches_at s tok u"
    using s ne un unfolding matches_at_def by blast
next
  assume "matches_at s tok u"
  then obtain post where s: "s = retry_literal @ tok @ [u] @ post" and ne: "tok \<noteq> []"
    and all: "list_all is_value_char tok" and un: "is_unit_char u"
    unfolding matches_at_def by blast
  from all have all': "\<And>c. c \<in> set tok \<Longrightarrow> is_value_char c" by (simp add: list_all_iff)
  from un have nv: "\<not> is_value_char u" by (rule unit_not_value)
  have tw: "takeWhile is_value_char (tok @ u # post) = tok"
    using all' nv by (simp add: takeWhile_tail)
  have dw: "dropWhile is_value_char (tok @ u # post) = u # post"
    using all' nv by (simp add: dropWhile_append3)
  show "match_at s = Some (tok, u)"
    unfolding match_at_def s using tw dw ne un by (simp add: Let_def)
qed

lemma match_at_None_iff: "match_at s = None \<longleftrightarrow> (\<forall>tok u. \<not> matches_at s tok u)"
proof -
  have "match_at s = None \<longleftrightarrow> (\<forall>tok u. match_at s \<noteq> Some (tok, u))"
    by (cases "match_at s") auto
  then show ?thesis by (simp add: match_at_iff)
qed

lemma matches_at_Nil: "\<not> matches_at [] tok u"
  by (simp add: matches_at_def retry_literal_def)

lemma re_search_Some_iff: "re_search s = Some (tok, u) \<longleftrightarrow> first_match s tok u"
proof (induction s)
  case Nil
  have "match_at [] = None" by (simp add: match_at_None_iff matches_at_Nil)
  then show ?case by (simp add: first_match_def matches_at_Nil)
next
  case (Cons c cs)
  show ?case
  proof (cases "match_at (c # cs)")
    case None
    then have no: "\<And>tok' u'. \<not> matches_at (c # cs) tok' u'"
      by (simp add: match_at_None_iff)
    have "first_match (c # cs) tok u \<longleftrightarrow> first_match cs tok u"
    proof
      assume "first_match (c # cs) tok u"
      then obtain i where i: "matches_at (drop i (c # cs)) tok u"
        and min: "\<And>j tok' u'. j < i \<Longrightarrow> \<not> matches_at (drop j (c # cs)) tok' u'"
        unfolding first_match_def by blast
      from i no have "i \<noteq> 0" by (cases i) auto
      then obtain k where k: "i = Suc k" by (cases i) auto
      from i k have "matches_at (drop k cs) tok u" by simp
      moreover have "\<And>j tok' u'. j < k \<Longrightarrow> \<not> matches_at (drop j cs) tok' u'"
        using min [of "Suc _"] k by simp
      ultimately show "first_match cs tok u" unfolding first_match_def by blast
    next
      assume "first_match cs tok u"
      then obtain k where k: "matches_at (drop k cs) tok u"
        and min: "\<And>j tok' u'. j < k \<Longrightarrow> \<not> matches_at (drop j cs) tok' u'"
        unfolding first_match_def by blast
      have "matches_at (drop (Suc k) (c # cs)) tok u" using k by simp
      moreover have "\<not> matches_at (drop j (c # cs)) tok' u'" if "j < Suc k" for j tok' u'
      proof (cases j)
        case 0
        then show ?thesis using no by simp
      next
        case (Suc j')
        with that min [of j'] show ?thesis by simp
      qed
      ultimately show "first_match (c # cs) tok u" unfolding first_match_def by blast
    qed
    with None Cons show ?thesis by simp
  next
    case (Some g)
    obtain tok0 u0 where g: "g = (tok0, u0)" by (cases g)
    with Some have m0: "matches_at (c # cs) tok0 u0" by (simp add: match_at_iff)
    have "first_match (c # cs) tok u \<longleftrightarrow> (tok, u) = (tok0, u0)"
    proof
      assume "first_match (c # cs) tok u"
      then obtain i where i: "matches_at (drop i (c # cs)) tok u"
        and min: "\<And>j tok' u'. j < i \<Longrightarrow> \<not> matches_at (drop j (c # cs)) tok' u'"
        unfolding first_match_def by blast
      have "i = 0"
      proof (rule ccontr)
        assume "i \<noteq> 0"
        then have "0 < i" by simp
        from min [OF this, of tok0 u0] m0 show False by simp
      qed
      with i have "match_at (c # cs) = Some (tok, u)" by (simp add: match_at_iff)
      with Some g show "(tok, u) = (tok0, u0)" by simp
    next
      assume "(tok, u) = (tok0, u0)"
      with m0 have "matches_at (drop 0 (c # cs)) tok u" by simp
      then show "first_match (c # cs) tok u" unfolding first_match_def by blast
    qed
    with Some g show ?thesis by auto
  qed
qed

lemma re_search_None_iff: "re_search s = None \<longleftrightarrow> \<not> has_wait_phrase s"
proof (induction s)
  case Nil
  have "match_at [] = None" by (simp add: match_at_None_iff matches_at_Nil)
  then show ?case by (simp add: has_wait_phrase_def matches_at_Nil)
next
  case (Cons c cs)
  have "has_wait_phrase (c # cs) \<longleftrightarrow> (\<exists>tok u. matches_at (c # cs) tok u) \<or> has_wait_phrase cs"
  proof
    assume "has_wait_phrase (c # cs)"
    then obtain i tok u where i: "matches_at (drop i (c # cs)) tok u"
      unfolding has_wait_phrase_def by blast
    show "(\<exists>tok u. matches_at (c # cs) tok u) \<or> has_wait_phrase cs"
    proof (cases i)
      case 0
      with i show ?thesis by auto
    next
      case (Suc k)
      with i have "matches_at (drop k cs) tok u" by simp
      then show ?thesis unfolding has_wait_phrase_def by blast
    qed
  next
    assume "(\<exists>tok u. matches_at (c # cs) tok u) \<or> has_wait_phrase cs"
    then show "has_wait_phrase (c # cs)"
    proof
      assume "\<exists>tok u. matches_at (c # cs) tok u"
      then obtain tok u where "matches_at (drop 0 (c # cs)) tok u" by auto
      then show ?thesis unfolding has_wait_phrase_def by blast
    next
      assume "has_wait_phrase cs"
      then obtain k tok u where "matches_at (drop (Suc k) (c # cs)) tok u"
        unfolding has_wait_phrase_def by auto
      then show ?thesis unfolding has_wait_phrase_def by blast
    qed
  qed
  note split = this
  show ?case
  proof (cases "match_at (c # cs)")
    case None
    then have "\<not> (\<exists>tok u. matches_at (c # cs) tok u)" by (simp add: match_at_None_iff)
    with split Cons None show ?thesis by simp
  next
    case (Some g)
    obtain tok0 u0 where "g = (tok0, u0)" by (cases g)
    with Some have "matches_at (c # cs) tok0 u0" by (simp add: match_at_iff)
    with split Some show ?thesis by auto
  qed
qed


section \<open>The wait time\<close>

lemma float_to_int_floor: "x \<noteq> Infinity \<Longrightarrow> float_to_int x = Inr \<lfloor>float_value x\<rfloor>"
proof (cases x)
  case (Finite m e)
  show ?thesis
  proof (cases "0 \<le> e")
    case True
    have "\<lfloor>(of_int (m * 2 ^ nat e) :: rat)\<rfloor> = m * 2 ^ nat e" by (rule floor_of_int)
    with Finite True show ?thesis
      by (simp only: float_to_int_def float_value_def pyfloat.case if_True)
  next
    case False
    have "\<lfloor>(of_int m :: rat) / of_int (2 ^ nat (- e))\<rfloor> = m div 2 ^ nat (- e)"
      by (rule floor_divide_of_int_eq)
    with Finite False show ?thesis
      by (simp only: float_to_int_def float_value_def pyfloat.case if_False)
  qed
next
  case Infinity
  assume "x \<noteq> Infinity"
  with Infinity show ?thesis by simp
qed

lemma first_match_guard:
  assumes "first_match msg tok u"
  shows "str_in ''Please try again in'' msg"
proof -
  from assms obtain i post where "drop i msg = retry_literal @ tok @ [u] @ post"
    unfolding first_match_def matches_at_def by blast
  then have "msg = take i msg @ ''Please try again in'' @ ('' '' @ tok @ [u] @ post)"
    using append_take_drop_id [of i msg] by (simp add: retry_literal_def)
  then show ?thesis unfolding str_in_iff by blast
qed

lemma first_match_unit: "first_match msg tok u \<Longrightarrow> is_unit_char u"
  unfolding first_match_def matches_at_def by blast

text \<open>
  When the pattern \<^verbatim>\<open>Please try again in ([\d.]+)([smh])\<close> matches nowhere in the message,
  the wait is the default of 60 seconds.
\<close>

lemma default_wait_time:
  assumes "\<not> has_wait_phrase msg"
  shows "wait_time_of msg = Inr 60"
proof -
  from assms have "re_search msg = None" by (simp add: re_search_None_iff)
  then show ?thesis by (simp add: wait_time_of_def)
qed

lemma default_wait_time_example:
  "\<not> has_wait_phrase no_hint_message \<and> wait_time_of no_hint_message = Inr 60"
proof -
  have "re_search no_hint_message = None" by code_simp
  then have h: "\<not> has_wait_phrase no_hint_message" by (simp add: re_search_None_iff)
  from default_wait_time [OF h] h show ?thesis by simp
qed

text \<open>
  C4, the failing input. The rate-limit message \<^verbatim>\<open>Please try again in 1.2.3s\<close> has no
  wait-time phrase that can be parsed: the pattern matches with the value \<^verbatim>\<open>1.2.3\<close>, which
  is not a number. The wait is not the default of 60 seconds: \<^verbatim>\<open>float\<close> raises
  \<^verbatim>\<open>ValueError\<close> and no wait time is computed. The default is reached only when the
  pattern matches nowhere (\<open>default_wait_time\<close>).
\<close>

theorem unparseable_hint_no_default:
  "is_rate_limit (rate_limit_error two_dots_message) \<and>
   re_search two_dots_message = Some (''1.2.3'', CHR ''s'') \<and>
   float_of_token ''1.2.3'' = Inl (ValueError_float ''1.2.3'') \<and>
   wait_time_of two_dots_message = Inl (ValueError_float ''1.2.3'')"
proof -
  have "is_rate_limit (rate_limit_error two_dots_message)"
    by (simp add: is_rate_limit_def rate_limit_error_def)
  moreover have "re_search two_dots_message = Some (''1.2.3'', CHR ''s'')" by code_simp
  moreover have "float_of_token ''1.2.3'' = Inl (ValueError_float ''1.2.3'')" by code_simp
  moreover have "wait_time_of two_dots_message = Inl (ValueError_float ''1.2.3'')" by code_simp
  ultimately show ?thesis by simp
qed

text \<open>
  C6, as the code has it. When the leftmost wait-time phrase has the value token \<open>tok\<close> and
  the unit \<open>u\<close>, and \<open>tok\<close> is a number (\<^verbatim>\<open>float(tok)\<close> returns the double \<open>v\<close>), the wait
  is the floor of the seconds computed in double arithmetic plus the buffer of the unit:
  \<open>\<lfloor>v\<rfloor> + 5\<close>, \<open>\<lfloor>v \<otimes> 60\<rfloor> + 10\<close>, \<open>\<lfloor>v \<otimes> 3600\<rfloor> + 60\<close>, where \<open>\<otimes>\<close> rounds the product to
  the nearest double, provided the seconds are finite.
\<close>

theorem wait_time_of_first_match:
  assumes "first_match msg tok u"
    and "float_of_token tok = Inr v"
    and "seconds_float v u \<noteq> Infinity"
  shows "wait_time_of msg = Inr (\<lfloor>float_value (seconds_float v u)\<rfloor> + buffer u)"
proof -
  from assms(1) have r: "re_search msg = Some (tok, u)" by (simp add: re_search_Some_iff)
  from assms(1) have g: "str_in ''Please try again in'' msg" by (rule first_match_guard)
  from assms(1) have "is_unit_char u" by (rule first_match_unit)
  then have u: "u = CHR ''s'' \<or> u = CHR ''m'' \<or> u = CHR ''h''"
    by (auto simp add: is_unit_char_def)
  from assms(3) have "float_to_int (seconds_float v u) = Inr \<lfloor>float_value (seconds_float v u)\<rfloor>"
    by (rule float_to_int_floor)
  with u show ?thesis
    unfolding wait_time_of_def using r g assms(2)
    by (auto simp add: seconds_float_def buffer_def add_buffer_def)
qed

theorem wait_time_of_first_match_witness:
  "first_match fractional_message ''2.05'' (CHR ''m'') \<and>
   wait_time_of fractional_message = Inr 132"
proof -
  have "re_search fractional_message = Some (''2.05'', CHR ''m'')" by code_simp
  then have fm: "first_match fractional_message ''2.05'' (CHR ''m'')"
    by (simp only: re_search_Some_iff)
  have v: "float_of_token ''2.05'' = Inr (Finite 4616189618054758 (- 51))" by code_simp
  have p: "float_mul (Finite 4616189618054758 (- 51)) 60 = Finite 8655355533852671 (- 46)"
    by code_simp
  have s: "seconds_float (Finite 4616189618054758 (- 51)) (CHR ''m'') =
             Finite 8655355533852671 (- 46)"
    by (simp add: seconds_float_def p)
  have fin: "seconds_float (Finite 4616189618054758 (- 51)) (CHR ''m'') \<noteq> Infinity"
    by (simp add: s)
  have "float_to_int (Finite 8655355533852671 (- 46)) = Inr 122" by code_simp
  then have fl: "\<lfloor>float_value (Finite 8655355533852671 (- 46))\<rfloor> = 122"
    by (simp add: float_to_int_floor)
  from wait_time_of_first_match [OF fm v fin] fm show ?thesis
    by (simp add: s fl buffer_def)
qed

text \<open>
  The claim C6 in exact arithmetic fails: for \<^verbatim>\<open>Please try again in 2.05m\<close> it gives
  \<open>\<lfloor>2.05 * 60\<rfloor> + 10 = 133\<close>, and the code waits 132 seconds, because the double nearest to
  2.05 times 60 rounds to a double just below 123.
\<close>

theorem exact_wait_counterexample:
  "is_rate_limit (rate_limit_error fractional_message) \<and>
   first_match fractional_message ''2.05'' (CHR ''m'') \<and>
   exact_wait ''2.05'' (CHR ''m'') = 133 \<and>
   wait_time_of fractional_message = Inr 132"
proof -
  have "is_rate_limit (rate_limit_error fractional_message)"
    by (simp add: is_rate_limit_def rate_limit_error_def)
  moreover have "re_search fractional_message = Some (''2.05'', CHR ''m'')" by code_simp
  then have "first_match fractional_message ''2.05'' (CHR ''m'')"
    by (simp only: re_search_Some_iff)
  moreover have "exact_wait ''2.05'' (CHR ''m'') = 133"
    by (simp add: exact_wait_def decimal_value_def digits_value_def digit_val_def)
  moreover have "wait_time_of fractional_message = Inr 132" by code_simp
  ultimately show ?thesis by simp
qed

text \<open>
  C1. The message of the comment in the code, \<^verbatim>\<open>Please try again in 3m23.04s\<close>: the
  pattern takes \<^verbatim>\<open>3m\<close> only, and the wait is \<open>3 * 60 + 10 = 190\<close> seconds, not 203.
\<close>

theorem compound_duration_wait:
  "is_rate_limit (rate_limit_error compound_message) \<and>
   str_in ''Please try again in 3m23.04s'' compound_message \<and>
   re_search compound_message = Some (''3'', CHR ''m'') \<and>
   wait_time_of compound_message = Inr 190"
proof -
  have "is_rate_limit (rate_limit_error compound_message)"
    by (simp add: is_rate_limit_def rate_limit_error_def)
  moreover have "str_in ''Please try again in 3m23.04s'' compound_message" by code_simp
  moreover have "re_search compound_message = Some (''3'', CHR ''m'')" by code_simp
  moreover have "wait_time_of compound_message = Inr 190" by code_simp
  ultimately show ?thesis by simp
qed


section \<open>The retry loop on rate limits\<close>

lemma no_digit_token:
  assumes "tok \<noteq> []" and "list_all is_value_char tok" and "\<forall>c\<in>set tok. \<not> is_digit c"
  shows "float_of_token tok = Inl (ValueError_float tok)"
proof -
  have dots: "c = CHR ''.''" if "c \<in> set tok" for c
  proof -
    from that assms(2) have "is_value_char c" by (simp add: list_all_iff)
    moreover from that assms(3) have "\<not> is_digit c" by blast
    ultimately show ?thesis by (auto simp add: is_value_char_def is_digit_def)
  qed
  from assms(1) obtain c cs where tok: "tok = c # cs" by (cases tok) auto
  with dots have c: "c = CHR ''.''" by simp
  have cs: "cs = [] \<or> CHR ''.'' \<in> set cs"
  proof (cases cs)
    case Nil
    then show ?thesis by simp
  next
    case (Cons d ds)
    with tok dots [of d] show ?thesis by simp
  qed
  show ?thesis
    unfolding float_of_token_def tok c using cs by (auto simp add: Let_def)
qed

lemma retry_loop_wait_raises:
  assumes "api (world s) system_prompt user_message = (Inl e, w')"
    and "is_Exception e" and "is_rate_limit e"
    and "wait_time_of (message e) = Inl err"
  shows "retry_loop api system_prompt user_message max_retries (attempt # rest) s =
           (Raise err, s\<lparr>world := w', trace := trace s @ [ApiCall system_prompt user_message]\<rparr>)"
  using assms by (simp add: Let_def)

text \<open>
  C10. When the value token of the leftmost wait-time phrase of a rate-limit error has no
  digit (as in \<^verbatim>\<open>Please try again in .s\<close>), \<^verbatim>\<open>float\<close> raises \<^verbatim>\<open>ValueError\<close>, and
  \<^verbatim>\<open>_make_api_call\<close> raises it after the first request instead of waiting the default 60
  seconds.
\<close>

theorem token_without_digit_raises:
  assumes "0 < max_retries"
    and "api (world s) system_prompt user_message = (Inl e, w')"
    and "is_Exception e" and "is_rate_limit e"
    and "first_match (message e) tok u"
    and "\<forall>c\<in>set tok. \<not> is_digit c"
  shows "make_api_call api system_prompt user_message max_retries s =
           (Raise (ValueError_float tok),
            s\<lparr>world := w', trace := trace s @ [ApiCall system_prompt user_message]\<rparr>)"
proof -
  from assms(5) have r: "re_search (message e) = Some (tok, u)"
    by (simp add: re_search_Some_iff)
  from assms(5) have g: "str_in ''Please try again in'' (message e)"
    by (rule first_match_guard)
  from assms(5) have ne: "tok \<noteq> []" and vc: "list_all is_value_char tok"
    unfolding first_match_def matches_at_def by blast+
  from ne vc assms(6) have "float_of_token tok = Inl (ValueError_float tok)"
    by (rule no_digit_token)
  with r g have w: "wait_time_of (message e) = Inl (ValueError_float tok)"
    by (simp add: wait_time_of_def)
  show ?thesis
    unfolding make_api_call_def upt_nat_Cons [OF assms(1)]
    using assms(2,3,4) w by (rule retry_loop_wait_raises)
qed

theorem token_without_digit_raises_witness:
  "make_api_call (always_fails (status_error dots_message)) ''sys'' ''usr'' 3 (init_workflow 0) =
     (Raise (ValueError_float ''...''),
      \<lparr>outputs = [], world = 1, trace = [ApiCall ''sys'' ''usr'']\<rparr>)"
proof -
  have "re_search dots_message = Some (''...'', CHR ''s'')" by code_simp
  then have fm: "first_match (message (status_error dots_message)) ''...'' (CHR ''s'')"
    by (simp only: re_search_Some_iff status_error_def exn.simps)
  have rl: "is_rate_limit (status_error dots_message)"
    by (simp add: is_rate_limit_def status_error_def dots_message_def)
  have nd: "\<forall>c\<in>set ''...''. \<not> is_digit c" by (simp add: is_digit_def)
  have ex: "is_Exception (status_error dots_message)" by (simp add: status_error_def)
  have call: "always_fails (status_error dots_message) (world (init_workflow 0)) ''sys'' ''usr'' =
      (Inl (status_error dots_message), 1)"
    by (simp add: always_fails_def init_workflow_def)
  have pos: "0 < (3::int)" by simp
  from pos call ex rl fm nd show ?thesis
    using token_without_digit_raises [of 3 "always_fails (status_error dots_message)"
      "init_workflow 0" "''sys''" "''usr''" "status_error dots_message" 1 "''...''" "CHR ''s''"]
    by (simp add: init_workflow_def)
qed

lemma retry_loop_rate_limit_retry:
  assumes "api (world s) system_prompt user_message = (Inl e, w')"
    and "is_Exception e" and "is_rate_limit e"
    and "wait_time_of (message e) = Inr t"
    and "int attempt < max_retries - 1"
  shows "retry_loop api system_prompt user_message max_retries (attempt # rest) s =
           retry_loop api system_prompt user_message max_retries rest
             (s\<lparr>world := w',
                trace := trace s @ [ApiCall system_prompt user_message, Sleep t]\<rparr>)"
  using assms by (simp add: Let_def)

lemma retry_loop_rate_limit_last:
  assumes "api (world s) system_prompt user_message = (Inl e, w')"
    and "is_Exception e" and "is_rate_limit e"
    and "wait_time_of (message e) = Inr t"
    and "\<not> int attempt < max_retries - 1"
  shows "retry_loop api system_prompt user_message max_retries (attempt # rest) s =
           (Raise e, s\<lparr>world := w', trace := trace s @ [ApiCall system_prompt user_message]\<rparr>)"
  using assms by (simp add: Let_def)

lemma upt_nat_3: "[0..<nat 3] = [0, 1, 2]"
  by (simp add: upt_rec)

text \<open>
  With \<open>max_retries = 3\<close> and three rate-limit errors whose wait times compute, there are
  three requests, a sleep after the first and after the second, none after the third, and
  the third error is raised.
\<close>

lemma rate_limit_exhausted:
  assumes "api (world s) system_prompt user_message = (Inl e1, w1)"
    and "api w1 system_prompt user_message = (Inl e2, w2)"
    and "api w2 system_prompt user_message = (Inl e3, w3)"
    and "is_Exception e1 \<and> is_rate_limit e1 \<and> wait_time_of (message e1) = Inr t1"
    and "is_Exception e2 \<and> is_rate_limit e2 \<and> wait_time_of (message e2) = Inr t2"
    and "is_Exception e3 \<and> is_rate_limit e3 \<and> wait_time_of (message e3) = Inr t3"
  shows "make_api_call api system_prompt user_message 3 s =
           (Raise e3,
            s\<lparr>world := w3,
              trace := trace s @
                [ApiCall system_prompt user_message, Sleep t1,
                 ApiCall system_prompt user_message, Sleep t2,
                 ApiCall system_prompt user_message]\<rparr>)"
  unfolding make_api_call_def upt_nat_3 using assms by (simp add: Let_def)

text \<open>
  C3, the failing input. With \<open>max_retries = 3\<close> and the rate-limit error
  \<^verbatim>\<open>Please try again in .s\<close> on every attempt, there is one attempt and no sleep, and
  the exception that leaves \<^verbatim>\<open>_make_api_call\<close> is the \<^verbatim>\<open>ValueError\<close> of \<^verbatim>\<open>float\<close>, not
  the rate-limit error.
\<close>

theorem malformed_hint_stops_retries:
  "is_rate_limit (rate_limit_error malformed_message) \<and>
   make_api_call (always_fails (rate_limit_error malformed_message)) ''sys'' ''usr'' 3
       (init_workflow 0) =
     (Raise (ValueError_float ''.''),
      \<lparr>outputs = [], world = 1, trace = [ApiCall ''sys'' ''usr'']\<rparr>)"
proof -
  have "is_rate_limit (rate_limit_error malformed_message)"
    by (simp add: is_rate_limit_def rate_limit_error_def)
  moreover have "make_api_call (always_fails (rate_limit_error malformed_message)) ''sys'' ''usr'' 3
       (init_workflow 0) =
     (Raise (ValueError_float ''.''),
      \<lparr>outputs = [], world = 1, trace = [ApiCall ''sys'' ''usr'']\<rparr>)"
    by code_simp
  ultimately show ?thesis by simp
qed


section \<open>The run of the five phases\<close>

text \<open>
  \<^verbatim>\<open>_make_api_call\<close> assigns nothing in \<^verbatim>\<open>self.outputs\<close> and creates no file, whatever
  the endpoint answers.
\<close>

lemma stores_append: "stores (xs @ ys) = stores xs @ stores ys"
  by (induction xs rule: stores.induct) simp_all

lemma retry_loop_effects:
  "retry_loop api sp um mr atts s = (r, s') \<Longrightarrow>
     outputs s' = outputs s \<and> stores (trace s') = stores (trace s) \<and>
     file_created s' = file_created s"
proof (induction atts arbitrary: s)
  case Nil
  then show ?case by auto
next
  case (Cons a atts)
  obtain x w' where call: "api (world s) sp um = (x, w')" by (cases "api (world s) sp um")
  show ?case
  proof (cases x)
    case (Inr resp)
    with call Cons.prems show ?thesis
      by (auto simp add: stores_append file_created_def)
  next
    case (Inl e)
    let ?s1 = "s\<lparr>world := w', trace := trace s @ [ApiCall sp um]\<rparr>"
    have base: "outputs ?s1 = outputs s \<and> stores (trace ?s1) = stores (trace s) \<and>
        file_created ?s1 = file_created s"
      by (simp add: stores_append file_created_def)
    show ?thesis
    proof (cases "is_Exception e \<and> is_rate_limit e")
      case False
      from call Inl have c: "api (world s) sp um = (Inl e, w')" by simp
      have "retry_loop api sp um mr (a # atts) s = (Raise e, ?s1)"
        using c False by (rule retry_loop_other_error)
      with Cons.prems have "s' = ?s1" by simp
      with base show ?thesis by simp
    next
      case True
      from call Inl have c: "api (world s) sp um = (Inl e, w')" by simp
      from True have ex: "is_Exception e" and rl: "is_rate_limit e" by simp_all
      show ?thesis
      proof (cases "wait_time_of (message e)")
        case (Inl err)
        have "retry_loop api sp um mr (a # atts) s = (Raise err, ?s1)"
          using c ex rl Inl by (rule retry_loop_wait_raises)
        with Cons.prems have "s' = ?s1" by simp
        with base show ?thesis by simp
      next
        case (Inr t)
        show ?thesis
        proof (cases "int a < mr - 1")
          case False
          have "retry_loop api sp um mr (a # atts) s = (Raise e, ?s1)"
            using c ex rl Inr False by (rule retry_loop_rate_limit_last)
          with Cons.prems have "s' = ?s1" by simp
          with base show ?thesis by simp
        next
          case lt: True
          let ?s2 = "s\<lparr>world := w', trace := trace s @ [ApiCall sp um, Sleep t]\<rparr>"
          have "retry_loop api sp um mr (a # atts) s = retry_loop api sp um mr atts ?s2"
            using c ex rl Inr lt by (rule retry_loop_rate_limit_retry)
          with Cons.prems have "retry_loop api sp um mr atts ?s2 = (r, s')" by simp
          from Cons.IH [OF this] show ?thesis
            by (simp add: stores_append file_created_def)
        qed
      qed
    qed
  qed
qed

lemma make_api_call_effects:
  "make_api_call api sp um mr s = (r, s') \<Longrightarrow>
     outputs s' = outputs s \<and> stores (trace s') = stores (trace s) \<and>
     file_created s' = file_created s"
  unfolding make_api_call_def by (rule retry_loop_effects)

lemma store_content_Return:
  assumes "store_content key (r, s) = (Return (), s')"
  shows "\<exists>c. outputs s' = dict_set key c (outputs s) \<and> trace s' = trace s @ [StoreSet key]"
  using assms
  by (auto simp add: store_content_def split: result.splits option.splits list.splits)

lemma store_content_file:
  assumes "store_content key (r, s) = (r', s')"
  shows "file_created s' = file_created s"
  using assms
  by (auto simp add: store_content_def file_created_def
      split: result.splits option.splits list.splits)

lemma call_and_store_Return:
  assumes "store_content key (make_api_call api sp um mr s) = (Return (), s')"
  shows "\<exists>c. outputs s' = dict_set key c (outputs s) \<and>
           stores (trace s') = stores (trace s) @ [key]"
proof -
  obtain r s1 where m: "make_api_call api sp um mr s = (r, s1)"
    by (cases "make_api_call api sp um mr s")
  from make_api_call_effects [OF m] have e: "outputs s1 = outputs s"
    "stores (trace s1) = stores (trace s)" by simp_all
  from assms m have "store_content key (r, s1) = (Return (), s')" by simp
  from store_content_Return [OF this] e show ?thesis
    by (auto simp add: stores_append)
qed

lemma call_and_store_file:
  assumes "store_content key (make_api_call api sp um mr s) = (r', s')"
  shows "file_created s' = file_created s"
proof -
  obtain r s1 where m: "make_api_call api sp um mr s = (r, s1)"
    by (cases "make_api_call api sp um mr s")
  from make_api_call_effects [OF m] have e: "file_created s1 = file_created s" by simp
  from assms m have "store_content key (r, s1) = (r', s')" by simp
  from store_content_file [OF this] e show ?thesis by simp
qed

text \<open>Each phase assigns its own key, once, when it returns, and creates no file.\<close>

lemma phase_research_stores: "stores_key ''research'' (phase_research api)"
  unfolding stores_key_def phase_research_def
  by (blast dest: call_and_store_Return call_and_store_file)

lemma phase_analysis_stores: "stores_key ''analysis'' (phase_analysis api)"
  unfolding stores_key_def phase_analysis_def
  by (auto split: sum.splits dest: call_and_store_Return call_and_store_file)

lemma phase_blueprint_stores: "stores_key ''blueprint'' (phase_blueprint api)"
  unfolding stores_key_def phase_blueprint_def
  by (auto split: sum.splits dest: call_and_store_Return call_and_store_file)

lemma phase_technical_stores: "stores_key ''technical'' (phase_technical api)"
  unfolding stores_key_def phase_technical_def
  by (auto split: sum.splits dest: call_and_store_Return call_and_store_file)

lemma phase_review_stores: "stores_key ''review'' (phase_review api)"
  unfolding stores_key_def phase_review_def
  by (auto split: sum.splits dest: call_and_store_Return call_and_store_file)

text \<open>\<^verbatim>\<open>run\<close> is the five phases in turn, then \<^verbatim>\<open>print_summary\<close>.\<close>

lemma seq_Raise: "seq (Raise e, s) f = (Raise e, s)"
  by (simp add: seq_def)

lemma seq_Return: "seq (Return x, s) f = f s"
  by (simp add: seq_def)

lemma seq_assoc: "seq (seq r f) g = seq r (\<lambda>s. seq (f s) g)"
  by (cases r) (auto simp add: seq_def split: result.splits)

lemma seq_run_steps_Nil: "seq r (run_steps []) = r"
  by (cases r) (auto simp add: seq_def split: result.splits)

lemma run_steps_append: "run_steps (fs @ gs) s = seq (run_steps fs s) (run_steps gs)"
proof (induction fs arbitrary: s)
  case Nil
  show ?case by (simp add: seq_Return)
next
  case (Cons f fs)
  have "(\<lambda>s. run_steps (fs @ gs) s) = (\<lambda>s. seq (run_steps fs s) (run_steps gs))"
    using Cons.IH by blast
  then have "run_steps (fs @ gs) = (\<lambda>s. seq (run_steps fs s) (run_steps gs))" by simp
  then show ?case by (simp add: seq_assoc)
qed

lemma run_eq: "run api s = seq (run_steps (phases api) s) print_summary"
proof -
  have e: "run_steps [f] = f" for f :: "'a workflow \<Rightarrow> unit result \<times> 'a workflow"
    by (rule ext) (simp add: seq_run_steps_Nil)
  show ?thesis
    unfolding run_def phases_def run_steps.simps(2) seq_run_steps_Nil
    by (simp add: seq_assoc)
qed

lemma run_steps_fail_at:
  assumes "k < length fs"
    and "run_steps (take k fs) s = (Return (), sk)"
    and "(fs ! k) sk = (Raise e, s')"
  shows "run_steps fs s = (Raise e, s')"
proof -
  from assms(1) have "fs = take k fs @ (fs ! k) # drop (Suc k) fs"
    by (rule id_take_nth_drop)
  then have "run_steps fs s = run_steps (take k fs @ (fs ! k) # drop (Suc k) fs) s" by simp
  also have "\<dots> = seq (run_steps (take k fs) s) (run_steps ((fs ! k) # drop (Suc k) fs))"
    by (rule run_steps_append)
  also have "\<dots> = (Raise e, s')"
    using assms(2,3) by (simp add: seq_Return seq_Raise)
  finally show ?thesis .
qed

lemma run_steps_file:
  assumes "\<forall>f\<in>set fs. \<exists>key. stores_key key f"
    and "run_steps fs s = (r, s')"
  shows "file_created s' = file_created s"
  using assms
proof (induction fs arbitrary: s)
  case Nil
  then show ?case by simp
next
  case (Cons f fs)
  obtain r1 s1 where f: "f s = (r1, s1)" by (cases "f s")
  from Cons.prems(1) obtain key where "stores_key key f" by auto
  with f have f1: "file_created s1 = file_created s" unfolding stores_key_def by blast
  show ?case
  proof (cases r1)
    case (Return u)
    with f Cons.prems(2) have "run_steps fs s1 = (r, s')" by (simp add: seq_Return)
    with Cons.IH Cons.prems(1) have "file_created s' = file_created s1" by simp
    with f1 show ?thesis by simp
  next
    case (Raise e)
    with f Cons.prems(2) have "s' = s1" by (simp add: seq_Raise)
    with f1 show ?thesis by simp
  qed
qed

lemma dict_set_keys: "map fst (dict_set k v d) = add_key (map fst d) k"
  by (auto simp add: dict_set_def add_key_def split_def comp_def intro: map_idI)

lemma run_steps_stores:
  assumes "list_all2 stores_key ks fs"
    and "run_steps fs s = (Return (), s')"
  shows "stores (trace s') = stores (trace s) @ ks \<and>
         map fst (outputs s') = foldl add_key (map fst (outputs s)) ks"
  using assms
proof (induction ks fs arbitrary: s rule: list_all2_induct)
  case Nil
  then show ?case by simp
next
  case (Cons k ks f fs)
  obtain r1 s1 where f: "f s = (r1, s1)" by (cases "f s")
  have r1: "r1 = Return ()"
  proof (cases r1)
    case (Return u)
    then show ?thesis by simp
  next
    case (Raise e)
    with f Cons.prems show ?thesis by (simp add: seq_Raise)
  qed
  with f Cons.prems have rest: "run_steps fs s1 = (Return (), s')" by (simp add: seq_Return)
  from Cons.hyps(1) f r1 obtain c where o: "outputs s1 = dict_set k c (outputs s)"
    and t: "stores (trace s1) = stores (trace s) @ [k]"
    unfolding stores_key_def by blast
  from Cons.IH [OF rest] o t show ?case by (simp add: dict_set_keys)
qed

lemma phases_store_keys: "list_all2 stores_key phase_names (phases api)"
  unfolding phase_names_def phases_def
  by (simp add: phase_research_stores phase_analysis_stores phase_blueprint_stores
      phase_technical_stores phase_review_stores)

lemma phases_each_store: "\<forall>f\<in>set (phases api). \<exists>key. stores_key key f"
  unfolding phases_def
  using phase_research_stores [of api] phase_analysis_stores [of api]
    phase_blueprint_stores [of api] phase_technical_stores [of api]
    phase_review_stores [of api]
  by auto

lemma write_outputs_effects:
  "write_outputs ks s = (r, s') \<Longrightarrow>
     outputs s' = outputs s \<and> stores (trace s') = stores (trace s)"
proof (induction ks arbitrary: s)
  case Nil
  then show ?case by auto
next
  case (Cons k ks)
  show ?case
  proof (cases "dict_get (outputs s) k")
    case (Inl e)
    with Cons.prems show ?thesis by auto
  next
    case (Inr v)
    show ?thesis
    proof (cases v)
      case None
      with Inr Cons.prems show ?thesis by auto
    next
      case (Some t)
      with Inr Cons.prems
      have "write_outputs ks (s\<lparr>trace := trace s @ [FileWrite (t @ ''\<newline>'')]\<rparr>) = (r, s')"
        by simp
      from Cons.IH [OF this] show ?thesis by (simp add: stores_append)
    qed
  qed
qed

lemma print_summary_effects:
  "print_summary s = (r, s') \<Longrightarrow>
     outputs s' = outputs s \<and> stores (trace s') = stores (trace s)"
  unfolding print_summary_def
  by (auto split: option.splits dest!: write_outputs_effects simp add: stores_append)

lemma no_file_at_start: "\<not> file_created (init_workflow w)"
  by (simp add: file_created_def init_workflow_def)

text \<open>
  C7. When \<^verbatim>\<open>run\<close> returns on a workflow just constructed, the keys of \<^verbatim>\<open>self.outputs\<close>
  are the five phase names in the order of the phases, one entry each, and the assignments
  to \<^verbatim>\<open>self.outputs\<close> during the run are exactly one per phase name, in that order: every
  key is assigned once, so none is overwritten.
\<close>

theorem full_run_output_store:
  assumes "run api (init_workflow w) = (Return (), s')"
  shows "map fst (outputs s') = phase_names \<and> stores (trace s') = phase_names \<and>
         distinct (stores (trace s'))"
proof -
  obtain r5 s5 where p: "run_steps (phases api) (init_workflow w) = (r5, s5)"
    by (cases "run_steps (phases api) (init_workflow w)")
  have r5: "r5 = Return ()"
  proof (cases r5)
    case (Return u)
    then show ?thesis by simp
  next
    case (Raise e)
    with p assms show ?thesis by (simp add: run_eq seq_Raise)
  qed
  with p assms have ps: "print_summary s5 = (Return (), s')"
    by (simp add: run_eq seq_Return)
  from p r5 have p5: "run_steps (phases api) (init_workflow w) = (Return (), s5)" by simp
  have "stores (trace s5) = stores (trace (init_workflow w)) @ phase_names \<and>
        map fst (outputs s5) = foldl add_key (map fst (outputs (init_workflow w))) phase_names"
    using phases_store_keys p5 by (rule run_steps_stores)
  then have "stores (trace s5) = phase_names" and "map fst (outputs s5) = phase_names"
    by (simp_all add: init_workflow_def phase_names_def add_key_def)
  with print_summary_effects [OF ps] show ?thesis by (simp add: phase_names_def)
qed

theorem full_run_output_store_witness:
  "fst (run scripted (init_workflow five_responses)) = Return () \<and>
   map fst (outputs (snd (run scripted (init_workflow five_responses)))) = phase_names \<and>
   stores (trace (snd (run scripted (init_workflow five_responses)))) = phase_names \<and>
   distinct (stores (trace (snd (run scripted (init_workflow five_responses)))))"
proof -
  have a: "fst (run scripted (init_workflow five_responses)) = Return ()" by code_simp
  then have "run scripted (init_workflow five_responses) =
      (Return (), snd (run scripted (init_workflow five_responses)))"
    by (simp add: prod_eq_iff)
  from full_run_output_store [OF this] a show ?thesis by blast
qed

text \<open>
  C8. When the phases before phase \<open>k\<close> (counted from 0) have returned and phase \<open>k\<close>
  raises \<open>e\<close> in the state \<open>s'\<close>, then \<^verbatim>\<open>run\<close> raises \<open>e\<close> and ends in that very state:
  nothing runs after the failing phase, no later phase and no summary, and the report file
  has not been created. And when a run has created the report file, all five phases have
  returned, and the file was not yet created when the last of them returned.
\<close>

theorem fatal_phase_halts_run:
  "(k < length (phases api) \<and>
    run_steps (take k (phases api)) (init_workflow w) = (Return (), sk) \<and>
    (phases api ! k) sk = (Raise e, s') \<longrightarrow>
      run api (init_workflow w) = (Raise e, s') \<and> FileCreated \<notin> set (trace s')) \<and>
   (FileCreated \<in> set (trace (snd (run api (init_workflow w)))) \<longrightarrow>
      (\<exists>s5. run_steps (phases api) (init_workflow w) = (Return (), s5) \<and>
            FileCreated \<notin> set (trace s5)))"
proof -
  have nofile: "\<not> file_created s1"
    if "run_steps (phases api) (init_workflow w) = (r1, s1)" for r1 s1
  proof -
    have "file_created s1 = file_created (init_workflow w)"
      using phases_each_store that by (rule run_steps_file)
    then show ?thesis by (simp add: no_file_at_start)
  qed
  have first: "run api (init_workflow w) = (Raise e, s') \<and> FileCreated \<notin> set (trace s')"
    if h: "k < length (phases api) \<and>
      run_steps (take k (phases api)) (init_workflow w) = (Return (), sk) \<and>
      (phases api ! k) sk = (Raise e, s')"
  proof -
    from h have a: "k < length (phases api)"
      and b: "run_steps (take k (phases api)) (init_workflow w) = (Return (), sk)"
      and c: "(phases api ! k) sk = (Raise e, s')" by simp_all
    have f: "run_steps (phases api) (init_workflow w) = (Raise e, s')"
      using a b c by (rule run_steps_fail_at)
    then have "run api (init_workflow w) = (Raise e, s')" by (simp add: run_eq seq_Raise)
    moreover from nofile [OF f] have "FileCreated \<notin> set (trace s')"
      by (simp add: file_created_def)
    ultimately show ?thesis by simp
  qed
  have second: "\<exists>s5. run_steps (phases api) (init_workflow w) = (Return (), s5) \<and>
      FileCreated \<notin> set (trace s5)"
    if h: "FileCreated \<in> set (trace (snd (run api (init_workflow w))))"
  proof -
    obtain r5 s5 where p: "run_steps (phases api) (init_workflow w) = (r5, s5)"
      by (cases "run_steps (phases api) (init_workflow w)")
    from nofile [OF p] have nf: "FileCreated \<notin> set (trace s5)" by (simp add: file_created_def)
    have "r5 = Return ()"
    proof (cases r5)
      case (Return u)
      then show ?thesis by simp
    next
      case (Raise e)
      with p have "run api (init_workflow w) = (Raise e, s5)" by (simp add: run_eq seq_Raise)
      with h nf show ?thesis by simp
    qed
    with p nf show ?thesis by simp
  qed
  from first second show ?thesis by blast
qed

theorem fatal_phase_halts_run_witness:
  "(1 < length (phases scripted) \<and>
    run_steps (take 1 (phases scripted)) (init_workflow one_response_then_timeout) =
      (Return (), after_research) \<and>
    (phases scripted ! 1) after_research = (Raise timeout_error, after_timeout) \<and>
    run scripted (init_workflow one_response_then_timeout) = (Raise timeout_error, after_timeout) \<and>
    FileCreated \<notin> set (trace after_timeout)) \<and>
   (FileCreated \<in> set (trace (snd (run scripted (init_workflow five_responses)))) \<and>
    (\<exists>s5. run_steps (phases scripted) (init_workflow five_responses) = (Return (), s5) \<and>
          FileCreated \<notin> set (trace s5)))"
proof -
  have a: "1 < length (phases scripted)" by (simp add: phases_def)
  have b: "run_steps (take 1 (phases scripted)) (init_workflow one_response_then_timeout) =
      (Return (), after_research)" by code_simp
  have c: "(phases scripted ! 1) after_research = (Raise timeout_error, after_timeout)"
    by code_simp
  have d: "FileCreated \<in> set (trace (snd (run scripted (init_workflow five_responses))))"
    by code_simp
  from a b c d
    fatal_phase_halts_run [of 1 scripted one_response_then_timeout after_research
      timeout_error after_timeout]
    fatal_phase_halts_run [of 0 scripted five_responses]
  show ?thesis by blast
qed

end
